theory Spec2Isabelle
  imports
    Complex_Main
    "HOL-Library.Char_ord"
    "HOL-Library.List_Lexorder"
    "HOL-Library.Product_Lexorder"
    "HOL-Library.Multiset"
begin

section \<open>Strings and the regular expressions of the source\<close>

text \<open>
  Python strings are modelled as \<^typ>\<open>string\<close>, read as ASCII text. Times are Python
  floats in the source; they are modelled as the exact rationals they denote
  (\<open>tStartMs / 1000.0\<close> is the rational \<open>ms / 1000\<close>), so the rounding of float
  arithmetic is not part of the model.
\<close>

definition is_digit :: "char \<Rightarrow> bool" where
  "is_digit c = (c \<in> set ''0123456789'')"

text \<open>The character class \<^verbatim>\<open>[0-9A-Za-z_-]\<close> of \<^verbatim>\<open>extract_video_id\<close>.\<close>

definition is_id_char :: "char \<Rightarrow> bool" where
  "is_id_char c =
     (c \<in> set ''0123456789ABCDEFGHIJKLMNOPQRSTUVWXYZabcdefghijklmnopqrstuvwxyz_-'')"

text \<open>The characters that \<^verbatim>\<open>str.strip()\<close> removes, within ASCII.\<close>

definition is_space :: "char \<Rightarrow> bool" where
  "is_space c =
     (c \<in> {CHR '' '', CHR 0x09, CHR 0x0A, CHR 0x0B, CHR 0x0C, CHR 0x0D,
            CHR 0x1C, CHR 0x1D, CHR 0x1E, CHR 0x1F})"

definition py_strip :: "string \<Rightarrow> string" where
  "py_strip s = rev (dropWhile is_space (rev (dropWhile is_space s)))"

definition starts_with :: "string \<Rightarrow> string \<Rightarrow> bool" where
  "starts_with p s = (take (length p) s = p)"

text \<open>\<^verbatim>\<open>sub in s\<close> on strings.\<close>

fun contains :: "string \<Rightarrow> string \<Rightarrow> bool" where
  "contains sub [] = (sub = [])"
| "contains sub (c # cs) = (starts_with sub (c # cs) \<or> contains sub cs)"

text \<open>\<^verbatim>\<open>int(x)\<close> on a float truncates towards zero; \<^verbatim>\<open>str(n)\<close> prints decimal digits.\<close>

definition py_int :: "rat \<Rightarrow> int" where
  "py_int x = (if 0 \<le> x then \<lfloor>x\<rfloor> else - \<lfloor>- x\<rfloor>)"

fun str_nat :: "nat \<Rightarrow> string" where
  "str_nat n =
     (if n < 10 then [''0123456789'' ! n]
      else str_nat (n div 10) @ [''0123456789'' ! (n mod 10)])"

declare str_nat.simps [simp del]

definition str_int :: "int \<Rightarrow> string" where
  "str_int i = (if i < 0 then CHR ''-'' # str_nat (nat (- i)) else str_nat (nat i))"

text \<open>
  \<^verbatim>\<open>re.sub(r'[&#]KEY\d+', '', s)\<close> for a literal \<open>KEY\<close>: scanning from the left, a
  \<open>&\<close> or \<open>#\<close> followed by \<open>KEY\<close> and at least one digit is removed together with all the
  digits that follow (\<^verbatim>\<open>\d+\<close> is greedy); scanning resumes after the match.
\<close>

function re_sub_marker :: "string \<Rightarrow> string \<Rightarrow> string" where
  "re_sub_marker key [] = []"
| "re_sub_marker key (c # cs) =
     (if (c = CHR ''&'' \<or> c = CHR ''#'') \<and> starts_with key cs
          \<and> takeWhile is_digit (drop (length key) cs) \<noteq> []
      then re_sub_marker key (dropWhile is_digit (drop (length key) cs))
      else c # re_sub_marker key cs)"
  by pat_completeness auto
termination
proof (relation "measure (\<lambda>(key, s). length s)")
  show "wf (measure (\<lambda>(key, s). length s))" by simp
next
  fix key :: string and c :: char and cs :: string
  have "length (dropWhile is_digit (drop (length key) cs)) \<le> length cs"
    by (rule order_trans [OF length_dropWhile_le]) simp
  then show "((key, dropWhile is_digit (drop (length key) cs)), (key, c # cs))
      \<in> measure (\<lambda>(key, s). length s)"
    by simp
next
  fix key :: string and c :: char and cs :: string
  show "((key, cs), (key, c # cs)) \<in> measure (\<lambda>(key, s). length s)" by simp
qed

section \<open>Replay references: \<^verbatim>\<open>SubtitleSearchPlayer.create_timestamp_url\<close>\<close>

definition create_timestamp_url :: "string \<Rightarrow> rat \<Rightarrow> string" where
  "create_timestamp_url video_url start_time =
     (let start_seconds = py_int start_time;
          url = (if contains ''t='' video_url \<or> contains ''#t='' video_url
                 then re_sub_marker ''start='' (re_sub_marker ''t='' video_url)
                 else video_url);
          separator = (if CHR ''?'' \<in> set url then ''&'' else ''?'')
      in url @ separator @ ''t='' @ str_int start_seconds @ ''s'')"

text \<open>The number of (possibly overlapping) occurrences of a substring.\<close>

fun count_occurrences :: "string \<Rightarrow> string \<Rightarrow> nat" where
  "count_occurrences sub [] = 0"
| "count_occurrences sub (c # cs) =
     (if starts_with sub (c # cs) then 1 else 0) + count_occurrences sub cs"

section \<open>Reference parsing: \<^verbatim>\<open>YouTubeSubtitleDownloader.extract_video_id\<close>\<close>

datatype exn = ValueError string

fun str_exn :: "exn \<Rightarrow> string" where
  "str_exn (ValueError msg) = msg"

text \<open>
  One pattern rule is a list of alternative literal prefixes followed by the group
  \<^verbatim>\<open>([0-9A-Za-z_-]{11})\<close>. \<open>match_at\<close> tries the alternatives in order at the start of
  the string; \<open>re_search\<close> is \<^verbatim>\<open>re.search(...).group(1)\<close>: the leftmost position wins.
\<close>

definition id_run :: "string \<Rightarrow> bool" where
  "id_run s = (length (take 11 s) = 11 \<and> list_all is_id_char (take 11 s))"

fun match_at :: "string list \<Rightarrow> string \<Rightarrow> string option" where
  "match_at [] s = None"
| "match_at (a # alts) s =
     (if starts_with a s \<and> id_run (drop (length a) s)
      then Some (take 11 (drop (length a) s))
      else match_at alts s)"

fun re_search :: "string list \<Rightarrow> string \<Rightarrow> string option" where
  "re_search alts [] = None"
| "re_search alts (c # cs) =
     (case match_at alts (c # cs) of
        Some v \<Rightarrow> Some v
      | None \<Rightarrow> re_search alts cs)"

definition patterns :: "string list list" where
  "patterns = [[''v='', ''/''], [''embed/''], [''v/'']]"

fun first_match :: "string list list \<Rightarrow> string \<Rightarrow> string option" where
  "first_match [] url = None"
| "first_match (p # ps) url =
     (case re_search p url of
        Some v \<Rightarrow> Some v
      | None \<Rightarrow> first_match ps url)"

definition extract_video_id :: "string \<Rightarrow> exn + string" where
  "extract_video_id url =
     (case first_match patterns url of
        Some v \<Rightarrow> Inr v
      | None \<Rightarrow> Inl (ValueError (''Could not extract video ID from URL: '' @ url)))"

section \<open>The record store: table \<^verbatim>\<open>subtitles\<close>\<close>

text \<open>
  A row of the table. The columns \<^verbatim>\<open>id\<close> and \<^verbatim>\<open>created_at\<close> are read by no
  operation of the source and are left out. The table is the list of its rows in
  insertion order.
\<close>

record subtitle_row =
  video_id :: string
  video_url :: string
  japanese_text :: string
  start_time :: rat
  end_time :: rat
  duration :: rat
  sequence_number :: nat

type_synonym store = "subtitle_row list"

text \<open>The columns of \<^verbatim>\<open>UNIQUE(video_id, start_time, japanese_text)\<close>.\<close>

definition row_key :: "subtitle_row \<Rightarrow> string \<times> rat \<times> string" where
  "row_key r = (video_id r, start_time r, japanese_text r)"

text \<open>
  \<^verbatim>\<open>INSERT OR IGNORE\<close>: a row that would violate the uniqueness constraint is skipped.
  The second component is \<^verbatim>\<open>cursor.rowcount\<close>.
\<close>

definition insert_or_ignore :: "store \<Rightarrow> subtitle_row \<Rightarrow> store \<times> nat" where
  "insert_or_ignore st r =
     (if row_key r \<in> set (map row_key st) then (st, 0) else (st @ [r], 1))"

text \<open>A sequence of inserts, each through \<^verbatim>\<open>INSERT OR IGNORE\<close>.\<close>

definition insert_all :: "store \<Rightarrow> subtitle_row list \<Rightarrow> store" where
  "insert_all st rs = foldl (\<lambda>st r. fst (insert_or_ignore st r)) st rs"

text \<open>\<^verbatim>\<open>SELECT COUNT(*) FROM subtitles WHERE video_id = ?\<close>\<close>

definition count_for_video :: "store \<Rightarrow> string \<Rightarrow> nat" where
  "count_for_video st vid = length (filter (\<lambda>r. video_id r = vid) st)"

section \<open>Track normalisation and storage: \<^verbatim>\<open>parse_subtitle_file\<close>\<close>

record seg =
  utf8 :: "string option"

record event =
  segs :: "seg list option"
  tStartMs :: "int option"
  dDurationMs :: "int option"

text \<open>\<^verbatim>\<open>''.join([seg.get('utf8', '') for seg in event['segs']])\<close>\<close>

definition join_segs :: "seg list \<Rightarrow> string" where
  "join_segs ss = concat (map (\<lambda>s. case utf8 s of None \<Rightarrow> [] | Some t \<Rightarrow> t) ss)"

text \<open>
  The body of the loop over \<^verbatim>\<open>enumerate(events)\<close> up to the \<^verbatim>\<open>INSERT\<close>: the row
  handed to the store for event \<open>ev\<close> at position \<open>i\<close>, if any.
\<close>

definition candidate :: "string \<Rightarrow> string \<Rightarrow> nat \<Rightarrow> event \<Rightarrow> subtitle_row option" where
  "candidate vid url i ev =
     (case segs ev of
        None \<Rightarrow> None
      | Some ss \<Rightarrow>
          (let text = py_strip (join_segs ss) in
           if text \<noteq> [] then
             (let start = of_int (case tStartMs ev of None \<Rightarrow> 0 | Some m \<Rightarrow> m) / 1000;
                  dur = of_int (case dDurationMs ev of None \<Rightarrow> 0 | Some m \<Rightarrow> m) / 1000
              in Some \<lparr>video_id = vid, video_url = url, japanese_text = text,
                        start_time = start, end_time = start + dur, duration = dur,
                        sequence_number = i\<rparr>)
           else None))"


text \<open>The loop itself: store and \<^verbatim>\<open>inserted_count\<close> are threaded through.\<close>

fun insert_events :: "string \<Rightarrow> string \<Rightarrow> (nat \<times> event) list \<Rightarrow> store \<times> nat \<Rightarrow> store \<times> nat" where
  "insert_events vid url [] (st, inserted_count) = (st, inserted_count)"
| "insert_events vid url ((i, ev) # rest) (st, inserted_count) =
     (case candidate vid url i ev of
        None \<Rightarrow> insert_events vid url rest (st, inserted_count)
      | Some r \<Rightarrow>
          (case insert_or_ignore st r of
             (st', rowcount) \<Rightarrow>
               insert_events vid url rest
                 (st', if rowcount > 0 then inserted_count + 1 else inserted_count)))"

text \<open>
  What lies outside the program: the exit of the \<^verbatim>\<open>yt-dlp\<close> process for a reference
  (or that running it raised, as on a timeout), and what \<^verbatim>\<open>parse_subtitle_file\<close>
  finds at a path: no file, a file whose reading raises, or a payload with its
  \<^verbatim>\<open>events\<close>.
\<close>

datatype run_result = Exit int | Raised

datatype file_state = Missing | Unreadable | Track "event list"

record world =
  run_yt_dlp :: "string \<Rightarrow> run_result"
  read_file :: "string \<Rightarrow> file_state"

fun parse_files :: "world \<Rightarrow> store \<Rightarrow> string \<Rightarrow> string \<Rightarrow> string list \<Rightarrow> store \<times> nat" where
  "parse_files w st vid url [] = (st, 0)"
| "parse_files w st vid url (subtitle_file # fs) =
     (case read_file w subtitle_file of
        Track events \<Rightarrow> insert_events vid url (enumerate 0 events) (st, 0)
      | Missing \<Rightarrow> parse_files w st vid url fs
      | Unreadable \<Rightarrow> parse_files w st vid url fs)"

definition parse_subtitle_file :: "world \<Rightarrow> store \<Rightarrow> string \<Rightarrow> string \<Rightarrow> store \<times> nat" where
  "parse_subtitle_file w st vid url =
     parse_files w st vid url
       [''subtitles/'' @ vid @ ''.ja.json3'', ''subtitles/'' @ vid @ ''.ja-orig.json3'']"

section \<open>Ingestion of one video: \<^verbatim>\<open>download_subtitle\<close>, \<^verbatim>\<open>process_single_video\<close>\<close>

definition download_subtitle :: "world \<Rightarrow> string \<Rightarrow> bool \<times> string" where
  "download_subtitle w url =
     (case extract_video_id url of
        Inl e \<Rightarrow> (False, [])
      | Inr vid \<Rightarrow>
          (case run_yt_dlp w url of
             Raised \<Rightarrow> (False, [])
           | Exit returncode \<Rightarrow> if returncode = 0 then (True, vid) else (False, vid)))"

text \<open>
  The outcome dictionary. \<^verbatim>\<open>processing_time\<close> is wall-clock time and is left out;
  the key \<^verbatim>\<open>error\<close> is present in one branch only.
\<close>

record outcome =
  o_video_id :: string
  o_url :: string
  o_status :: string
  o_error :: "string option"
  o_subtitle_count :: nat

text \<open>The \<^verbatim>\<open>try\<close> block of \<^verbatim>\<open>process_single_video\<close>: \<open>Inl\<close> is an exception leaving it.\<close>

definition process_single_video_try :: "world \<Rightarrow> store \<Rightarrow> string \<Rightarrow> exn + (outcome \<times> store)" where
  "process_single_video_try w st url =
     (case extract_video_id url of
        Inl e \<Rightarrow> Inl e
      | Inr vid \<Rightarrow>
          (let existing_count = count_for_video st vid in
           if existing_count > 0 then
             Inr (\<lparr>o_video_id = vid, o_url = url, o_status = ''skipped'',
                   o_error = None, o_subtitle_count = existing_count\<rparr>, st)
           else
             (case download_subtitle w url of
                (success, returned_video_id) \<Rightarrow>
                  if success then
                    (case parse_subtitle_file w st returned_video_id url of
                       (st', subtitle_count) \<Rightarrow>
                         Inr (\<lparr>o_video_id = returned_video_id, o_url = url,
                               o_status = (if subtitle_count > 0 then ''success''
                                           else ''no_subtitles''),
                               o_error = None, o_subtitle_count = subtitle_count\<rparr>, st'))
                  else
                    Inr (\<lparr>o_video_id = vid, o_url = url, o_status = ''failed'',
                          o_error = None, o_subtitle_count = 0\<rparr>, st))))"

text \<open>The whole function, with its \<^verbatim>\<open>except Exception as e\<close> branch.\<close>

definition process_single_video :: "world \<Rightarrow> store \<Rightarrow> string \<Rightarrow> outcome \<times> store" where
  "process_single_video w st url =
     (case process_single_video_try w st url of
        Inr res \<Rightarrow> res
      | Inl e \<Rightarrow>
          (\<lparr>o_video_id = ''unknown'', o_url = url, o_status = ''error'',
            o_error = Some (str_exn e), o_subtitle_count = 0\<rparr>, st))"

section \<open>The batch: \<^verbatim>\<open>process_video_list\<close>\<close>

record results =
  success :: nat
  failed :: nat
  skipped :: nat
  no_subtitles :: nat
  total_subtitles :: nat
  details :: "outcome list"

definition initial_results :: results where
  "initial_results =
     \<lparr>success = 0, failed = 0, skipped = 0, no_subtitles = 0, total_subtitles = 0,
      details = []\<rparr>"

text \<open>The body of the loop over the completed futures.\<close>

definition tally :: "results \<Rightarrow> outcome \<Rightarrow> results" where
  "tally res result =
     (let res = res\<lparr>details := details res @ [result]\<rparr>;
          status = o_status result
      in if status = ''success'' then
           res\<lparr>success := success res + 1,
               total_subtitles := total_subtitles res + o_subtitle_count result\<rparr>
         else if status = ''failed'' \<or> status = ''error'' then
           res\<lparr>failed := failed res + 1\<rparr>
         else if status = ''skipped'' then
           res\<lparr>skipped := skipped res + 1,
               total_subtitles := total_subtitles res + o_subtitle_count result\<rparr>
         else if status = ''no_subtitles'' then
           res\<lparr>no_subtitles := no_subtitles res + 1\<rparr>
         else res)"

text \<open>
  The submitted tasks, run one after the other against the store. The thread pool
  completes them in an order of its own; the tally is taken over the outcomes in the
  order they are handed over, and its counters do not depend on that order.
\<close>

fun run_tasks :: "world \<Rightarrow> store \<Rightarrow> string list \<Rightarrow> outcome list \<times> store" where
  "run_tasks w st [] = ([], st)"
| "run_tasks w st (url # urls) =
     (case process_single_video w st url of
        (result, st') \<Rightarrow>
          (case run_tasks w st' urls of
             (rs, st'') \<Rightarrow> (result # rs, st'')))"

definition process_video_list :: "world \<Rightarrow> store \<Rightarrow> string list \<Rightarrow> results \<times> store" where
  "process_video_list w st video_urls =
     (case run_tasks w st video_urls of
        (rs, st') \<Rightarrow> (foldl tally initial_results rs, st'))"

section \<open>Search: \<^verbatim>\<open>search_word_in_subtitles\<close>, \<^verbatim>\<open>advanced_search\<close>\<close>

text \<open>
  The \<^verbatim>\<open>LIKE\<close> operator of SQLite: \<open>%\<close> stands for any sequence of characters, \<open>_\<close> for
  one character, and ASCII letters are compared without regard to case.
\<close>

definition ascii_lower :: "char \<Rightarrow> char" where
  "ascii_lower c =
     (case map_of (zip ''ABCDEFGHIJKLMNOPQRSTUVWXYZ'' ''abcdefghijklmnopqrstuvwxyz'') c of
        Some l \<Rightarrow> l
      | None \<Rightarrow> c)"

fun like :: "string \<Rightarrow> string \<Rightarrow> bool" where
  "like [] s = (s = [])"
| "like (p # ps) [] = (p = CHR ''%'' \<and> like ps [])"
| "like (p # ps) (c # cs) =
     (if p = CHR ''%'' then like ps (c # cs) \<or> like (p # ps) cs
      else if p = CHR ''_'' then like ps cs
      else ascii_lower p = ascii_lower c \<and> like ps cs)"

record search_result = subtitle_row +
  timestamp_url :: string

definition to_result :: "subtitle_row \<Rightarrow> search_result" where
  "to_result r =
     \<lparr>video_id = video_id r, video_url = video_url r, japanese_text = japanese_text r,
      start_time = start_time r, end_time = end_time r, duration = duration r,
      sequence_number = sequence_number r,
      timestamp_url = create_timestamp_url (video_url r) (start_time r)\<rparr>"

text \<open>
  \<^verbatim>\<open>ORDER BY video_id, start_time\<close> (text compared bytewise) and \<^verbatim>\<open>LIMIT n\<close>; a
  negative limit means no limit in SQLite. The order among rows with equal keys is left
  open by SQL; the model keeps them in insertion order.
\<close>

definition order_key :: "'a subtitle_row_scheme \<Rightarrow> string \<times> rat" where
  "order_key r = (video_id r, start_time r)"

definition sql_limit :: "int \<Rightarrow> 'a list \<Rightarrow> 'a list" where
  "sql_limit n xs = (if n < 0 then xs else take (nat n) xs)"

definition search_word_in_subtitles ::
    "store \<Rightarrow> string \<Rightarrow> bool \<Rightarrow> int \<Rightarrow> search_result list" where
  "search_word_in_subtitles st search_word exact_match limit =
     (if exact_match then
        map to_result
          (sql_limit limit
            (sort_key order_key (filter (\<lambda>r. japanese_text r = search_word) st)))
      else
        map to_result
          (sql_limit limit
            (sort_key order_key
              (filter (\<lambda>r. like (''%'' @ search_word @ ''%'') (japanese_text r)) st))))"

text \<open>The default of the parameter \<^verbatim>\<open>limit\<close>.\<close>

definition default_limit :: int where
  "default_limit = 20"

text \<open>
  The filter dictionary: a key may be absent. A value counts only when it is truthy:
  a number other than zero, a non-empty list, \<open>True\<close>.
\<close>

record filters =
  min_duration :: "rat option"
  max_duration :: "rat option"
  video_ids :: "string list option"
  exclude_short :: "bool option"

definition conditions :: "filters option \<Rightarrow> (subtitle_row \<Rightarrow> bool) list" where
  "conditions fo =
     (case fo of
        None \<Rightarrow> []
      | Some f \<Rightarrow>
          (case min_duration f of
             Some d \<Rightarrow> if d \<noteq> 0 then [\<lambda>r. duration r \<ge> d] else []
           | None \<Rightarrow> [])
          @ (case max_duration f of
               Some d \<Rightarrow> if d \<noteq> 0 then [\<lambda>r. duration r \<le> d] else []
             | None \<Rightarrow> [])
          @ (case video_ids f of
               Some ids \<Rightarrow> if ids \<noteq> [] then [\<lambda>r. video_id r \<in> set ids] else []
             | None \<Rightarrow> [])
          @ (case exclude_short f of
               Some b \<Rightarrow> if b then [\<lambda>r. length (japanese_text r) > 5] else []
             | None \<Rightarrow> []))"

definition advanced_search :: "store \<Rightarrow> string \<Rightarrow> filters option \<Rightarrow> search_result list" where
  "advanced_search st search_term fo =
     map to_result
       (sql_limit 50
         (sort_key order_key
           (filter (\<lambda>r. like (''%'' @ search_term @ ''%'') (japanese_text r)
                        \<and> list_all (\<lambda>cond. cond r) (conditions fo)) st)))"

section \<open>Context: \<^verbatim>\<open>get_video_context\<close>\<close>





section \<open>Sample data\<close>

text \<open>A reference, a payload of three events (the second one empty) and a world that serves it.\<close>

definition sample_url :: string where
  "sample_url = ''https://youtu.be/dQw4w9WgXcQ''"

definition sample_events :: "event list" where
  "sample_events =
     [\<lparr>segs = Some [\<lparr>utf8 = Some ''konnichiwa''\<rparr>], tStartMs = Some 0, dDurationMs = Some 2000\<rparr>,
      \<lparr>segs = Some [\<lparr>utf8 = Some ''  ''\<rparr>], tStartMs = Some 2000, dDurationMs = Some 1000\<rparr>,
      \<lparr>segs = Some [\<lparr>utf8 = Some ''sayou''\<rparr>, \<lparr>utf8 = Some ''nara ''\<rparr>],
        tStartMs = Some 5000, dDurationMs = Some 2000\<rparr>]"

definition sample_world :: world where
  "sample_world =
     \<lparr>run_yt_dlp = (\<lambda>url. Exit 0),
      read_file = (\<lambda>path. if path = ''subtitles/dQw4w9WgXcQ.ja.json3''
                           then Track sample_events else Missing)\<rparr>"

definition offline_world :: world where
  "offline_world = \<lparr>run_yt_dlp = (\<lambda>url. Raised), read_file = (\<lambda>path. Missing)\<rparr>"

definition sample_row :: "string \<Rightarrow> rat \<Rightarrow> string \<Rightarrow> subtitle_row" where
  "sample_row vid t text =
     \<lparr>video_id = vid, video_url = ''https://youtu.be/'' @ vid, japanese_text = text,
      start_time = t, end_time = t + 2, duration = 2, sequence_number = 0\<rparr>"


section \<open>The normaliser in the words of its description\<close>



definition interleaved_store :: store where
  "interleaved_store =
     [sample_row ''bbbbbbbbbbb'' 5 ''neko'', sample_row ''aaaaaaaaaaa'' 7 ''Neko desu'',
      sample_row ''bbbbbbbbbbb'' 1 ''inu to neko'', sample_row ''aaaaaaaaaaa'' 2 ''kuroneko'',
      sample_row ''aaaaaaaaaaa'' 4 ''inu'']"

definition falsy_filters :: filters where
  "falsy_filters =
     \<lparr>min_duration = Some 0, max_duration = Some 0, video_ids = Some [],
      exclude_short = Some False\<rparr>"


text \<open>The status strings that \<^verbatim>\<open>process_single_video\<close> writes.\<close>


definition known_statuses :: "string set" where
  "known_statuses = {''success'', ''no_subtitles'', ''failed'', ''skipped'', ''error''}"

section \<open>Replay references, applied twice\<close>

text \<open>
  C1. \<^verbatim>\<open>create_timestamp_url\<close> applied to its own output should give a reference with
  exactly one time marker, the new one. On the code it does not: the marker it appends
  is \<open>t=30s\<close>, and the pattern that strips old markers neither matches a marker that
  follows \<open>?\<close> nor takes the \<open>s\<close>. A reference without a query component keeps the old
  marker and gets a second one; a reference with a query component loses the digits of
  the old marker and keeps its \<open>s\<close>, glued to the video id.
\<close>

theorem create_timestamp_url_twice:
  "create_timestamp_url (create_timestamp_url ''https://youtu.be/dQw4w9WgXcQ'' 30) 45
     = ''https://youtu.be/dQw4w9WgXcQ?t=30s&t=45s''
   \<and> count_occurrences ''t=''
         (create_timestamp_url (create_timestamp_url ''https://youtu.be/dQw4w9WgXcQ'' 30) 45) = 2
   \<and> create_timestamp_url
         (create_timestamp_url ''https://www.youtube.com/watch?v=dQw4w9WgXcQ'' 30) 45
     = ''https://www.youtube.com/watch?v=dQw4w9WgXcQs&t=45s''"
  by code_simp

section \<open>The uniqueness invariant of the store\<close>

lemma insert_or_ignore_keeps_distinct:
  "distinct (map row_key st) \<Longrightarrow> distinct (map row_key (fst (insert_or_ignore st r)))"
  by (simp add: insert_or_ignore_def)

lemma insert_all_keeps_distinct:
  "distinct (map row_key st) \<Longrightarrow> distinct (map row_key (insert_all st rs))"
  unfolding insert_all_def
  by (induction rs arbitrary: st) (simp_all add: insert_or_ignore_keeps_distinct)

lemma insert_or_ignore_has_key:
  "row_key r \<in> set (map row_key (fst (insert_or_ignore st r)))"
  by (simp add: insert_or_ignore_def)

lemma distinct_key_count:
  "distinct (map row_key st) \<Longrightarrow> k \<in> set (map row_key st) \<Longrightarrow>
   length (filter (\<lambda>x. row_key x = k) st) = 1"
proof (induction st)
  case Nil
  then show ?case by simp
next
  case (Cons a st)
  show ?case
  proof (cases "row_key a = k")
    case True
    with Cons.prems have "k \<notin> row_key ` set st" by simp
    then have "filter (\<lambda>x. row_key x = k) st = []"
      unfolding filter_empty_conv by blast
    with True show ?thesis by simp
  next
    case False
    with Cons show ?thesis by auto
  qed
qed

text \<open>
  C3. Whatever rows are inserted into the empty table, in whatever order, no two stored
  rows agree on \<open>(video_id, start_time, japanese_text)\<close>. If a row \<open>r\<close> is inserted and
  then a row \<open>r'\<close> with the same triple, the second insert changes nothing and reports no
  new row (\<open>rowcount = 0\<close>), and the table holds exactly one row with that triple.
\<close>

theorem store_uniqueness:
  "distinct (map row_key (insert_all [] rs))
   \<and> (row_key r' = row_key r \<longrightarrow>
        (let st = insert_all [] rs;
             st1 = fst (insert_or_ignore st r)
         in insert_or_ignore st1 r' = (st1, 0)
            \<and> length (filter (\<lambda>x. row_key x = row_key r) st1) = 1))"
proof -
  have d0: "distinct (map row_key (insert_all [] rs))"
    by (rule insert_all_keeps_distinct) simp
  have d1: "distinct (map row_key (fst (insert_or_ignore (insert_all [] rs) r)))"
    by (rule insert_or_ignore_keeps_distinct [OF d0])
  have k1: "row_key r \<in> set (map row_key (fst (insert_or_ignore (insert_all [] rs) r)))"
    by (rule insert_or_ignore_has_key)
  have c1: "length (filter (\<lambda>x. row_key x = row_key r)
              (fst (insert_or_ignore (insert_all [] rs) r))) = 1"
    by (rule distinct_key_count [OF d1 k1])
  have i2: "row_key r' = row_key r \<Longrightarrow>
      insert_or_ignore (fst (insert_or_ignore (insert_all [] rs) r)) r'
        = (fst (insert_or_ignore (insert_all [] rs) r), 0)"
    using k1 by (simp add: insert_or_ignore_def [of _ r'])
  show ?thesis using d0 c1 i2 by (simp add: Let_def)
qed

theorem store_uniqueness_witness:
  "row_key ((sample_row ''dQw4w9WgXcQ'' 5 ''neko'')\<lparr>sequence_number := 9\<rparr>)
     = row_key (sample_row ''dQw4w9WgXcQ'' 5 ''neko'')
   \<and> distinct (map row_key (insert_all [] [sample_row ''dQw4w9WgXcQ'' 1 ''inu'']))
   \<and> (let st = insert_all [] [sample_row ''dQw4w9WgXcQ'' 1 ''inu''];
           st1 = fst (insert_or_ignore st (sample_row ''dQw4w9WgXcQ'' 5 ''neko''))
       in insert_or_ignore st1 ((sample_row ''dQw4w9WgXcQ'' 5 ''neko'')\<lparr>sequence_number := 9\<rparr>)
            = (st1, 0)
          \<and> length (filter (\<lambda>x. row_key x = row_key (sample_row ''dQw4w9WgXcQ'' 5 ''neko'')) st1)
              = 1)"
proof -
  have k: "row_key ((sample_row ''dQw4w9WgXcQ'' 5 ''neko'')\<lparr>sequence_number := 9\<rparr>)
             = row_key (sample_row ''dQw4w9WgXcQ'' 5 ''neko'')"
    by (simp add: row_key_def sample_row_def)
  show ?thesis
    using k store_uniqueness [of "[sample_row ''dQw4w9WgXcQ'' 1 ''inu'']"
        "(sample_row ''dQw4w9WgXcQ'' 5 ''neko'')\<lparr>sequence_number := 9\<rparr>"
        "sample_row ''dQw4w9WgXcQ'' 5 ''neko''"]
    by simp
qed

section \<open>Ingesting a video twice\<close>

lemma candidate_video_id: "candidate vid url i ev = Some r \<Longrightarrow> video_id r = vid"
  by (auto simp: candidate_def Let_def split: option.splits if_splits)

lemma count_insert_or_ignore:
  "video_id r = vid \<Longrightarrow>
   count_for_video (fst (insert_or_ignore st r)) vid
     = count_for_video st vid + snd (insert_or_ignore st r)"
  by (simp add: insert_or_ignore_def count_for_video_def)

lemma snd_insert_or_ignore_le: "snd (insert_or_ignore st r) \<le> 1"
  by (simp add: insert_or_ignore_def)

text \<open>The loop adds to the rows of the video exactly what it adds to its counter.\<close>

lemma insert_events_count:
  "insert_events vid url ievs (st, n) = (st', n') \<Longrightarrow>
   count_for_video st' vid + n = count_for_video st vid + n'"
proof (induction ievs arbitrary: st n)
  case Nil
  then show ?case by simp
next
  case (Cons a ievs)
  obtain i ev where a: "a = (i, ev)" by (cases a)
  show ?case
  proof (cases "candidate vid url i ev")
    case None
    with Cons a show ?thesis by simp
  next
    case (Some r)
    obtain st1 rc where ins: "insert_or_ignore st r = (st1, rc)"
      by (cases "insert_or_ignore st r")
    have vid: "video_id r = vid" using Some by (rule candidate_video_id)
    have c1: "count_for_video st1 vid = count_for_video st vid + rc"
      using count_insert_or_ignore [OF vid, of st] ins by simp
    have rc: "rc \<le> 1" using snd_insert_or_ignore_le [of st r] ins by simp
    from Cons.prems a Some ins
    have "insert_events vid url ievs (st1, if rc > 0 then n + 1 else n) = (st', n')"
      by simp
    from Cons.IH [OF this]
    have "count_for_video st' vid + (if rc > 0 then n + 1 else n)
            = count_for_video st1 vid + n'" .
    with c1 rc show ?thesis by (cases "rc = 0") auto
  qed
qed

lemma parse_files_count:
  "parse_files w st vid url fs = (st', n') \<Longrightarrow>
   count_for_video st' vid = count_for_video st vid + n'"
proof (induction fs)
  case Nil
  then show ?case by simp
next
  case (Cons f fs)
  show ?case
  proof (cases "read_file w f")
    case (Track events)
    with Cons.prems
    have "insert_events vid url (enumerate 0 events) (st, 0) = (st', n')" by simp
    from insert_events_count [OF this] show ?thesis by simp
  qed (use Cons in simp_all)
qed

lemma download_subtitle_success:
  "download_subtitle w url = (True, rv) \<Longrightarrow> extract_video_id url = Inr rv"
  by (auto simp: download_subtitle_def split: sum.splits run_result.splits if_splits)

lemma process_single_video_skips:
  assumes "extract_video_id url = Inr vid" and "0 < count_for_video st vid"
  shows "process_single_video w st url =
           (\<lparr>o_video_id = vid, o_url = url, o_status = ''skipped'', o_error = None,
             o_subtitle_count = count_for_video st vid\<rparr>, st)"
  using assms by (simp add: process_single_video_def process_single_video_try_def)

lemma process_single_video_success:
  assumes run: "process_single_video w st url = (out, st1)"
      and ok: "o_status out = ''success''"
  shows "\<exists>vid. extract_video_id url = Inr vid \<and> count_for_video st vid = 0
            \<and> o_video_id out = vid
            \<and> 0 < o_subtitle_count out
            \<and> count_for_video st1 vid = o_subtitle_count out"
proof (cases "extract_video_id url")
  case (Inl e)
  with run ok show ?thesis
    by (auto simp: process_single_video_def process_single_video_try_def)
next
  case (Inr vid)
  show ?thesis
  proof (cases "0 < count_for_video st vid")
    case True
    from process_single_video_skips [OF Inr True, of w] run ok show ?thesis by auto
  next
    case False
    then have z: "count_for_video st vid = 0" by simp
    obtain s rv where dl: "download_subtitle w url = (s, rv)"
      by (cases "download_subtitle w url")
    show ?thesis
    proof (cases s)
      case False
      with run ok Inr z dl show ?thesis
        by (auto simp: process_single_video_def process_single_video_try_def)
    next
      case True
      with dl Inr have rv: "rv = vid" using download_subtitle_success by fastforce
      obtain st' n where ps: "parse_subtitle_file w st vid url = (st', n)"
        by (cases "parse_subtitle_file w st vid url")
      from ps have cnt: "count_for_video st' vid = count_for_video st vid + n"
        unfolding parse_subtitle_file_def by (rule parse_files_count)
      from run Inr z dl True rv ps
      have out: "out = \<lparr>o_video_id = vid, o_url = url,
                    o_status = (if n > 0 then ''success'' else ''no_subtitles''),
                    o_error = None, o_subtitle_count = n\<rparr>" and st1: "st1 = st'"
        by (auto simp: process_single_video_def process_single_video_try_def)
      from out ok have "n > 0" by (cases "n > 0") auto
      with out st1 cnt z Inr show ?thesis by simp
    qed
  qed
qed

lemma sample_run:
  "process_single_video sample_world [] sample_url =
     (\<lparr>o_video_id = ''dQw4w9WgXcQ'', o_url = ''https://youtu.be/dQw4w9WgXcQ'',
       o_status = ''success'', o_error = None, o_subtitle_count = 2\<rparr>,
      [\<lparr>video_id = ''dQw4w9WgXcQ'', video_url = ''https://youtu.be/dQw4w9WgXcQ'',
        japanese_text = ''konnichiwa'', start_time = 0, end_time = 2, duration = 2,
        sequence_number = 0\<rparr>,
       \<lparr>video_id = ''dQw4w9WgXcQ'', video_url = ''https://youtu.be/dQw4w9WgXcQ'',
        japanese_text = ''sayounara'', start_time = 5, end_time = 7, duration = 2,
        sequence_number = 2\<rparr>])"
  by code_simp

lemma sample_video_id: "extract_video_id sample_url = Inr ''dQw4w9WgXcQ''"
  by code_simp

text \<open>
  C4. If a run of \<^verbatim>\<open>process_single_video\<close> on a reference returns status
  \<open>success\<close>, then a second run on the same reference, against the store the first run
  left and in any world, returns status \<open>skipped\<close> with \<open>subtitle_count\<close> equal to the
  number of rows stored for the video, and leaves the store as it was: nothing is
  fetched and nothing is inserted. That number is the count the first run reported.
\<close>

theorem ingest_twice_skips:
  assumes "process_single_video w st url = (out1, st1)"
      and "o_status out1 = ''success''"
  shows "\<exists>vid. extract_video_id url = Inr vid
           \<and> process_single_video w' st1 url =
               (\<lparr>o_video_id = vid, o_url = url, o_status = ''skipped'', o_error = None,
                 o_subtitle_count = count_for_video st1 vid\<rparr>, st1)
           \<and> count_for_video st1 vid = o_subtitle_count out1
           \<and> 0 < count_for_video st1 vid"
proof -
  from process_single_video_success [OF assms]
  obtain vid where v: "extract_video_id url = Inr vid"
      and p: "0 < o_subtitle_count out1"
      and c: "count_for_video st1 vid = o_subtitle_count out1"
    by blast
  from p c have pos: "0 < count_for_video st1 vid" by simp
  from process_single_video_skips [OF v pos, of w'] v c pos show ?thesis by blast
qed

theorem ingest_twice_skips_witness:
  "o_status (fst (process_single_video sample_world [] sample_url)) = ''success''
   \<and> fst (process_single_video offline_world
            (snd (process_single_video sample_world [] sample_url)) sample_url)
       = \<lparr>o_video_id = ''dQw4w9WgXcQ'', o_url = sample_url, o_status = ''skipped'',
          o_error = None, o_subtitle_count = 2\<rparr>
   \<and> snd (process_single_video offline_world
            (snd (process_single_video sample_world [] sample_url)) sample_url)
       = snd (process_single_video sample_world [] sample_url)
   \<and> count_for_video (snd (process_single_video sample_world [] sample_url)) ''dQw4w9WgXcQ'' = 2"
proof -
  have ok: "o_status \<lparr>o_video_id = ''dQw4w9WgXcQ'', o_url = ''https://youtu.be/dQw4w9WgXcQ'',
       o_status = ''success'', o_error = None, o_subtitle_count = 2\<rparr> = ''success''"
    by simp
  from ingest_twice_skips [OF sample_run ok, of offline_world]
  show ?thesis
    by (auto simp: sample_run sample_video_id)
qed

section \<open>The normaliser, event by event\<close>







text \<open>The loop of \<^verbatim>\<open>parse_subtitle_file\<close> inserts the candidate rows, one by one, in order.\<close>

lemma insert_events_normalize:
  "insert_events vid url ievs (st, n) =
     foldl (\<lambda>(st, n) r. case insert_or_ignore st r of
                           (st', rc) \<Rightarrow> (st', if rc > 0 then n + 1 else n))
           (st, n) (List.map_filter (\<lambda>(i, ev). candidate vid url i ev) ievs)"
proof (induction ievs arbitrary: st n)
  case Nil
  then show ?case by simp
next
  case (Cons a ievs)
  obtain i ev where a: "a = (i, ev)" by (cases a)
  show ?case
  proof (cases "candidate vid url i ev")
    case None
    with Cons a show ?thesis by simp
  next
    case (Some r)
    obtain st1 rc where ins: "insert_or_ignore st r = (st1, rc)"
      by (cases "insert_or_ignore st r")
    with Cons a Some show ?thesis by simp
  qed
qed



section \<open>Search: order and limits\<close>

lemma order_key_to_result: "order_key (to_result r) = order_key r"
  by (simp add: order_key_def to_result_def)

lemma map_key_sort_key: "map f (sort_key f xs) = sort (map f xs)"
  by (rule properties_for_sort [symmetric]) simp_all

lemma map_order_key_results:
  "map order_key (map to_result (sql_limit n (sort_key order_key xs)))
     = sql_limit n (sort (map order_key xs))"
proof -
  have 1: "map order_key (map to_result ys) = map order_key ys" for ys
    by (simp add: order_key_to_result)
  have 2: "map order_key (sql_limit n ys) = sql_limit n (map order_key ys)"
    for ys :: "subtitle_row list"
    by (simp add: sql_limit_def take_map)
  show ?thesis by (simp only: 1 2 map_key_sort_key)
qed

lemma sorted_sql_limit: "sorted xs \<Longrightarrow> sorted (sql_limit n xs)"
  by (simp add: sql_limit_def)

lemma length_sql_limit: "0 \<le> n \<Longrightarrow> length (sql_limit n xs) \<le> nat n"
  by (simp add: sql_limit_def)

lemma sort_filter_perm:
  assumes "mset st' = mset st"
  shows "sort (map f (filter P st')) = sort (map f (filter P st))"
proof (rule properties_for_sort)
  from assms have "mset (filter P st') = mset (filter P st)" by simp
  then have "mset (map f (filter P st')) = mset (map f (filter P st))"
    by (metis mset_map)
  then show "mset (sort (map f (filter P st))) = mset (map f (filter P st'))" by simp
  show "sorted (sort (map f (filter P st)))" by simp
qed

lemma search_keys:
  "map order_key (search_word_in_subtitles st w exact limit) =
     sql_limit limit (sort (map order_key
       (filter (\<lambda>r. if exact then japanese_text r = w
                    else like (''%'' @ w @ ''%'') (japanese_text r)) st)))"
  by (cases exact)
     (simp_all only: search_word_in_subtitles_def map_order_key_results if_True if_False)

lemma advanced_keys:
  "map order_key (advanced_search st w fo) =
     sql_limit 50 (sort (map order_key
       (filter (\<lambda>r. like (''%'' @ w @ ''%'') (japanese_text r)
                    \<and> list_all (\<lambda>cond. cond r) (conditions fo)) st)))"
  by (simp only: advanced_search_def map_order_key_results)

text \<open>
  C6. The results of \<^verbatim>\<open>search_word_in_subtitles\<close> and of \<^verbatim>\<open>advanced_search\<close> are
  in ascending order of \<open>(video_id, start_time)\<close>, whatever the order of insertion: two
  stores holding the same rows in different orders give the same sequence of keys. With
  the default limit the plain search returns at most 20 results; the advanced search
  returns at most 50.
\<close>

theorem search_ordering_and_limits:
  "sorted (map order_key (search_word_in_subtitles st w exact limit))
   \<and> sorted (map order_key (advanced_search st w fo))
   \<and> length (search_word_in_subtitles st w exact default_limit) \<le> 20
   \<and> length (advanced_search st w fo) \<le> 50
   \<and> (mset st' = mset st \<longrightarrow>
        map order_key (search_word_in_subtitles st' w exact limit)
          = map order_key (search_word_in_subtitles st w exact limit)
        \<and> map order_key (advanced_search st' w fo) = map order_key (advanced_search st w fo))"
proof -
  have s1: "sorted (map order_key (search_word_in_subtitles st w exact limit))"
    unfolding search_keys by (rule sorted_sql_limit) simp
  have s2: "sorted (map order_key (advanced_search st w fo))"
    unfolding advanced_keys by (rule sorted_sql_limit) simp
  have l1: "length (search_word_in_subtitles st w exact default_limit) \<le> 20"
    by (simp add: search_word_in_subtitles_def default_limit_def sql_limit_def)
  have l2: "length (advanced_search st w fo) \<le> 50"
    by (simp add: advanced_search_def sql_limit_def)
  have p1: "map order_key (search_word_in_subtitles st' w exact limit)
          = map order_key (search_word_in_subtitles st w exact limit)" if "mset st' = mset st"
    unfolding search_keys by (simp only: sort_filter_perm [OF that])
  have p2: "map order_key (advanced_search st' w fo) = map order_key (advanced_search st w fo)"
    if "mset st' = mset st"
    unfolding advanced_keys by (simp only: sort_filter_perm [OF that])
  show ?thesis
    by (intro conjI impI) (rule s1 s2 l1 l2 p1 p2, assumption?)+
qed

lemma interleaved_search:
  "map order_key (search_word_in_subtitles interleaved_store ''neko'' False default_limit)
     = [(''aaaaaaaaaaa'', 2), (''aaaaaaaaaaa'', 7), (''bbbbbbbbbbb'', 1), (''bbbbbbbbbbb'', 5)]"
  by code_simp

lemma interleaved_advanced:
  "map order_key (advanced_search interleaved_store ''neko'' None)
     = [(''aaaaaaaaaaa'', 2), (''aaaaaaaaaaa'', 7), (''bbbbbbbbbbb'', 1), (''bbbbbbbbbbb'', 5)]"
  by code_simp

theorem search_ordering_and_limits_witness:
  "mset (rev interleaved_store) = mset interleaved_store
   \<and> map order_key (search_word_in_subtitles interleaved_store ''neko'' False default_limit)
       = [(''aaaaaaaaaaa'', 2), (''aaaaaaaaaaa'', 7), (''bbbbbbbbbbb'', 1), (''bbbbbbbbbbb'', 5)]
   \<and> map order_key (search_word_in_subtitles (rev interleaved_store) ''neko'' False default_limit)
       = [(''aaaaaaaaaaa'', 2), (''aaaaaaaaaaa'', 7), (''bbbbbbbbbbb'', 1), (''bbbbbbbbbbb'', 5)]
   \<and> map order_key (advanced_search (rev interleaved_store) ''neko'' None)
       = [(''aaaaaaaaaaa'', 2), (''aaaaaaaaaaa'', 7), (''bbbbbbbbbbb'', 1), (''bbbbbbbbbbb'', 5)]"
  using search_ordering_and_limits
    [of interleaved_store "''neko''" False default_limit None "rev interleaved_store"]
  by (simp add: interleaved_search interleaved_advanced)

section \<open>Advanced search: filter values that do not count\<close>

lemma conditions_falsy:
  assumes "min_duration f = None \<or> min_duration f = Some 0"
      and "max_duration f = None \<or> max_duration f = Some 0"
      and "video_ids f = None \<or> video_ids f = Some []"
      and "exclude_short f = None \<or> exclude_short f = Some False"
  shows "conditions (Some f) = []"
  using assms by (auto simp: conditions_def)

text \<open>
  C9. A filter dictionary in which \<open>min_duration\<close> and \<open>max_duration\<close> are absent or 0,
  \<open>video_ids\<close> is absent or the empty list and \<open>exclude_short\<close> is absent or \<open>False\<close>
  adds no condition: for every store and search term, \<^verbatim>\<open>advanced_search\<close> returns what it
  returns without filters.
\<close>

theorem advanced_search_falsy_filters:
  assumes "min_duration f = None \<or> min_duration f = Some 0"
      and "max_duration f = None \<or> max_duration f = Some 0"
      and "video_ids f = None \<or> video_ids f = Some []"
      and "exclude_short f = None \<or> exclude_short f = Some False"
  shows "advanced_search st search_term (Some f) = advanced_search st search_term None"
proof -
  have c: "conditions (Some f) = []" using assms by (rule conditions_falsy)
  have "conditions None = []" by (simp add: conditions_def)
  with c show ?thesis by (simp add: advanced_search_def)
qed

theorem advanced_search_falsy_filters_witness:
  "advanced_search interleaved_store ''neko'' (Some falsy_filters)
     = advanced_search interleaved_store ''neko'' None
   \<and> map order_key (advanced_search interleaved_store ''neko'' (Some falsy_filters))
     = [(''aaaaaaaaaaa'', 2), (''aaaaaaaaaaa'', 7), (''bbbbbbbbbbb'', 1), (''bbbbbbbbbbb'', 5)]"
proof -
  have h: "min_duration falsy_filters = None \<or> min_duration falsy_filters = Some 0"
    "max_duration falsy_filters = None \<or> max_duration falsy_filters = Some 0"
    "video_ids falsy_filters = None \<or> video_ids falsy_filters = Some []"
    "exclude_short falsy_filters = None \<or> exclude_short falsy_filters = Some False"
    by (simp_all add: falsy_filters_def)
  from advanced_search_falsy_filters [OF h, of interleaved_store "''neko''"]
  show ?thesis by (simp add: interleaved_advanced)
qed

section \<open>The context window\<close>




section \<open>Outcomes of one video and the tally of a batch\<close>

lemma first_match_None: "first_match ps url = None \<longleftrightarrow> (\<forall>p \<in> set ps. re_search p url = None)"
  by (induction ps) (auto split: option.splits)

lemma extract_video_id_fails:
  "(\<forall>p \<in> set patterns. re_search p url = None) \<Longrightarrow>
   extract_video_id url = Inl (ValueError (''Could not extract video ID from URL: '' @ url))"
  by (simp add: extract_video_id_def first_match_None [symmetric])

lemma process_single_video_handler:
  "process_single_video_try w st url = Inl e \<Longrightarrow>
   process_single_video w st url =
     (\<lparr>o_video_id = ''unknown'', o_url = url, o_status = ''error'',
       o_error = Some (str_exn e), o_subtitle_count = 0\<rparr>, st)"
  by (simp add: process_single_video_def)

lemma process_single_video_try_parse:
  "extract_video_id url = Inl e \<Longrightarrow> process_single_video_try w st url = Inl e"
  by (simp add: process_single_video_try_def)

lemma process_single_video_try_Inr:
  "process_single_video_try w st url = Inr (out, st') \<Longrightarrow>
   o_url out = url \<and> o_status out \<in> {''success'', ''no_subtitles'', ''failed'', ''skipped''}"
  by (auto simp: process_single_video_try_def Let_def
           split: sum.splits prod.splits if_splits)

lemma process_single_video_url: "o_url (fst (process_single_video w st url)) = url"
proof (cases "process_single_video_try w st url")
  case (Inl e)
  then show ?thesis by (simp add: process_single_video_handler)
next
  case (Inr res)
  obtain out st' where "res = (out, st')" by (cases res)
  with Inr process_single_video_try_Inr [of w st url out st'] show ?thesis
    by (simp add: process_single_video_def)
qed

lemma process_single_video_status:
  "o_status (fst (process_single_video w st url)) \<in> known_statuses"
proof (cases "process_single_video_try w st url")
  case (Inl e)
  then show ?thesis by (simp add: process_single_video_handler known_statuses_def)
next
  case (Inr res)
  obtain out st' where "res = (out, st')" by (cases res)
  with Inr process_single_video_try_Inr [of w st url out st'] show ?thesis
    by (auto simp: process_single_video_def known_statuses_def)
qed

lemma run_tasks_outcomes:
  "run_tasks w st urls = (rs, st') \<Longrightarrow>
   map o_url rs = urls \<and> (\<forall>r \<in> set rs. o_status r \<in> known_statuses)"
proof (induction urls arbitrary: st rs st')
  case Nil
  then show ?case by simp
next
  case (Cons url urls)
  obtain r st1 where p: "process_single_video w st url = (r, st1)"
    by (cases "process_single_video w st url")
  obtain rs1 st2 where t: "run_tasks w st1 urls = (rs1, st2)"
    by (cases "run_tasks w st1 urls")
  from Cons.prems p t have rs: "rs = r # rs1" by simp
  from p process_single_video_url [of w st url] process_single_video_status [of w st url]
  have "o_url r = url" "o_status r \<in> known_statuses" by simp_all
  with Cons.IH [OF t] rs show ?case by simp
qed

lemma tally_fields:
  "details (tally res r) = details res @ [r]"
  "success (tally res r) = success res + (if o_status r = ''success'' then 1 else 0)"
  "failed (tally res r) =
     failed res + (if o_status r = ''failed'' \<or> o_status r = ''error'' then 1 else 0)"
  "skipped (tally res r) = skipped res + (if o_status r = ''skipped'' then 1 else 0)"
  "no_subtitles (tally res r) =
     no_subtitles res + (if o_status r = ''no_subtitles'' then 1 else 0)"
  "total_subtitles (tally res r) =
     total_subtitles res
       + (if o_status r = ''success'' \<or> o_status r = ''skipped'' then o_subtitle_count r else 0)"
  by (auto simp: tally_def Let_def)

lemma foldl_tally:
  "details (foldl tally res rs) = details res @ rs"
  "success (foldl tally res rs) =
     success res + length (filter (\<lambda>r. o_status r = ''success'') rs)"
  "failed (foldl tally res rs) =
     failed res + length (filter (\<lambda>r. o_status r = ''failed'' \<or> o_status r = ''error'') rs)"
  "skipped (foldl tally res rs) =
     skipped res + length (filter (\<lambda>r. o_status r = ''skipped'') rs)"
  "no_subtitles (foldl tally res rs) =
     no_subtitles res + length (filter (\<lambda>r. o_status r = ''no_subtitles'') rs)"
  "total_subtitles (foldl tally res rs) =
     total_subtitles res
       + sum_list (map o_subtitle_count
           (filter (\<lambda>r. o_status r = ''success'' \<or> o_status r = ''skipped'') rs))"
  by (induction rs arbitrary: res) (simp_all add: tally_fields)

lemma known_status_counts:
  "(\<forall>r \<in> set rs. o_status r \<in> known_statuses) \<Longrightarrow>
   length (filter (\<lambda>r. o_status r = ''success'') rs)
   + length (filter (\<lambda>r. o_status r = ''failed'' \<or> o_status r = ''error'') rs)
   + length (filter (\<lambda>r. o_status r = ''skipped'') rs)
   + length (filter (\<lambda>r. o_status r = ''no_subtitles'') rs) = length rs"
  by (induction rs) (auto simp: known_statuses_def)

lemma length_filter_perm:
  "mset xs = mset ys \<Longrightarrow> length (filter P xs) = length (filter P ys)"
  by (metis mset_filter size_mset)

lemma sum_list_filter_perm:
  fixes f :: "'a \<Rightarrow> nat"
  assumes "mset xs = mset ys"
  shows "sum_list (map f (filter P xs)) = sum_list (map f (filter P ys))"
proof -
  from assms have "mset (map f (filter P xs)) = mset (map f (filter P ys))"
    by (metis mset_filter mset_map)
  then show ?thesis by (metis sum_mset_sum_list)
qed




section \<open>What the pattern rules match\<close>

lemma match_at_None_iff:
  "match_at alts s = None \<longleftrightarrow>
     (\<forall>a \<in> set alts. \<not> (starts_with a s \<and> id_run (drop (length a) s)))"
  by (induction alts) auto

lemma match_at_Nil: "match_at alts [] = None"
  by (simp add: match_at_None_iff id_run_def)

lemma re_search_None_iff:
  "re_search alts s = None \<longleftrightarrow> (\<forall>n. match_at alts (drop n s) = None)"
proof (induction s)
  case Nil
  then show ?case by (simp add: match_at_Nil)
next
  case (Cons c cs)
  have "(\<forall>n. match_at alts (drop n (c # cs)) = None)
          \<longleftrightarrow> match_at alts (c # cs) = None \<and> (\<forall>n. match_at alts (drop n cs) = None)"
  proof
    assume a: "\<forall>n. match_at alts (drop n (c # cs)) = None"
    from a [rule_format, of 0] have "match_at alts (c # cs) = None" by simp
    moreover have "match_at alts (drop n cs) = None" for n
      using a [rule_format, of "Suc n"] by simp
    ultimately show "match_at alts (c # cs) = None \<and> (\<forall>n. match_at alts (drop n cs) = None)"
      by simp
  next
    assume a: "match_at alts (c # cs) = None \<and> (\<forall>n. match_at alts (drop n cs) = None)"
    show "\<forall>n. match_at alts (drop n (c # cs)) = None"
    proof
      fix n show "match_at alts (drop n (c # cs)) = None"
        using a by (cases n) simp_all
    qed
  qed
  with Cons show ?case by (simp split: option.split)
qed

lemma slash_after_prefix:
  assumes "starts_with (p @ ''/'') t" and "id_run (drop (length (p @ ''/'')) t)"
  shows "match_at [''v='', ''/''] (drop (length p) t) \<noteq> None"
proof -
  from assms(1) have t: "take (Suc (length p)) t = p @ ''/''" by (simp add: starts_with_def)
  have "take 1 (drop (length p) t) = drop (length p) (take (Suc (length p)) t)"
    by (simp add: drop_take)
  also have "\<dots> = ''/''" by (simp add: t)
  finally have s: "starts_with ''/'' (drop (length p) t)" by (simp add: starts_with_def)
  from assms(2) have "id_run (drop (length ''/'') (drop (length p) t))"
    by (simp add: add.commute)
  with s show ?thesis by (simp add: match_at_None_iff)
qed

text \<open>
  A match of the second or third rule contains a \<open>/\<close> followed by eleven id characters,
  which the first rule matches as well: the first rule alone decides the result.
\<close>

lemma later_rules_subsumed:
  assumes "re_search [''v='', ''/''] url = None"
  shows "re_search [''embed/''] url = None" and "re_search [''v/''] url = None"
proof -
  have none: "match_at [''v='', ''/''] (drop n url) = None" for n
    using assms by (simp add: re_search_None_iff)
  have "match_at [p @ ''/''] (drop n url) = None" for n and p :: string
  proof (rule ccontr)
    assume "match_at [p @ ''/''] (drop n url) \<noteq> None"
    then have "starts_with (p @ ''/'') (drop n url)"
      and "id_run (drop (length (p @ ''/'')) (drop n url))"
      by (auto split: if_splits)
    from slash_after_prefix [OF this] none [of "n + length p"] show False
      by (simp add: add.commute)
  qed
  from this [of "''embed''"] this [of "''v''"]
  show "re_search [''embed/''] url = None" and "re_search [''v/''] url = None"
    by (simp_all add: re_search_None_iff)
qed

lemma first_match_patterns: "first_match patterns url = re_search [''v='', ''/''] url"
  by (cases "re_search [''v='', ''/''] url")
     (simp_all add: patterns_def later_rules_subsumed)

section \<open>References that no rule matches\<close>

lemma no_rule_matches: "\<forall>p \<in> set patterns. re_search p ''not a url'' = None"
  by code_simp

text \<open>
  C2, as stated, fails on the code: on a reference that no pattern rule matches,
  \<^verbatim>\<open>process_single_video\<close> returns the status \<open>error\<close>, which is not the status \<open>failed\<close>
  that a failed fetch gets.
\<close>

theorem invalid_reference_status_counterexample:
  "re_search [''v='', ''/''] ''https://www.youtube.com/watch?v=example123'' = None
   \<and> re_search [''embed/''] ''https://www.youtube.com/watch?v=example123'' = None
   \<and> re_search [''v/''] ''https://www.youtube.com/watch?v=example123'' = None
   \<and> o_status (fst (process_single_video offline_world []
           ''https://www.youtube.com/watch?v=example123'')) = ''error''
   \<and> o_status (fst (process_single_video offline_world []
           ''https://www.youtube.com/watch?v=example123'')) \<noteq> ''failed''"
  by code_simp

text \<open>
  C2, amended. For every reference that no pattern rule matches, \<^verbatim>\<open>extract_video_id\<close>
  raises \<open>ValueError\<close> with the message \<open>Could not extract video ID from URL: \<close>
  followed by the reference, and \<^verbatim>\<open>process_single_video\<close> returns, without raising and
  without touching the store, the outcome with status \<open>error\<close>, video id \<open>unknown\<close>,
  \<open>subtitle_count\<close> 0 and that message in \<open>error\<close>. The tally of a batch counts this
  outcome under \<open>failed\<close>.
\<close>

theorem invalid_reference_outcome:
  assumes "\<forall>p \<in> set patterns. re_search p url = None"
  shows "extract_video_id url =
           Inl (ValueError (''Could not extract video ID from URL: '' @ url))
         \<and> process_single_video w st url =
             (\<lparr>o_video_id = ''unknown'', o_url = url, o_status = ''error'',
               o_error = Some (''Could not extract video ID from URL: '' @ url),
               o_subtitle_count = 0\<rparr>, st)
         \<and> failed (tally res (fst (process_single_video w st url))) = failed res + 1"
proof -
  have x: "extract_video_id url =
           Inl (ValueError (''Could not extract video ID from URL: '' @ url))"
    using assms by (rule extract_video_id_fails)
  have p: "process_single_video w st url =
             (\<lparr>o_video_id = ''unknown'', o_url = url, o_status = ''error'',
               o_error = Some (''Could not extract video ID from URL: '' @ url),
               o_subtitle_count = 0\<rparr>, st)"
    using process_single_video_handler [OF process_single_video_try_parse [OF x], of w st]
    by simp
  have t: "failed (tally res (fst (process_single_video w st url))) = failed res + 1"
    by (simp add: p tally_fields)
  show ?thesis by (rule conjI [OF x conjI [OF p t]])
qed

theorem invalid_reference_outcome_witness:
  "re_search [''v='', ''/''] ''not a url'' = None
   \<and> re_search [''embed/''] ''not a url'' = None
   \<and> re_search [''v/''] ''not a url'' = None
   \<and> process_single_video sample_world [] ''not a url'' =
       (\<lparr>o_video_id = ''unknown'', o_url = ''not a url'', o_status = ''error'',
         o_error = Some ''Could not extract video ID from URL: not a url'',
         o_subtitle_count = 0\<rparr>, [])"
  using invalid_reference_outcome [OF no_rule_matches, of sample_world "[]" initial_results]
    no_rule_matches
  by (simp add: patterns_def)

section \<open>The report of a batch\<close>

text \<open>
  C8. For every list of references \<^verbatim>\<open>process_video_list\<close> returns a report. In it
  \<open>success + failed + skipped + no_subtitles\<close> is the number of references; the detail
  list holds one outcome per reference; and each counter is the number of outcomes in
  the detail list with its status (\<open>failed\<close> counting the statuses \<open>failed\<close> and
  \<open>error\<close>), so every outcome is counted under exactly one counter. The counters are
  the same in whatever order the outcomes are handed to the tally.
\<close>

theorem process_video_list_total:
  "case process_video_list w st video_urls of
     (res, st') \<Rightarrow>
       success res + failed res + skipped res + no_subtitles res = length video_urls
       \<and> length (details res) = length video_urls
       \<and> mset (map o_url (details res)) = mset video_urls
       \<and> success res = length (filter (\<lambda>r. o_status r = ''success'') (details res))
       \<and> failed res =
           length (filter (\<lambda>r. o_status r = ''failed'' \<or> o_status r = ''error'') (details res))
       \<and> skipped res = length (filter (\<lambda>r. o_status r = ''skipped'') (details res))
       \<and> no_subtitles res = length (filter (\<lambda>r. o_status r = ''no_subtitles'') (details res))
       \<and> (\<forall>rs. mset rs = mset (details res) \<longrightarrow>
             success (foldl tally initial_results rs) = success res
             \<and> failed (foldl tally initial_results rs) = failed res
             \<and> skipped (foldl tally initial_results rs) = skipped res
             \<and> no_subtitles (foldl tally initial_results rs) = no_subtitles res
             \<and> total_subtitles (foldl tally initial_results rs) = total_subtitles res)"
proof -
  obtain rs0 st0 where t: "run_tasks w st video_urls = (rs0, st0)"
    by (cases "run_tasks w st video_urls")
  define res where "res = foldl tally initial_results rs0"
  have pv: "process_video_list w st video_urls = (res, st0)"
    by (simp add: process_video_list_def t res_def)
  from run_tasks_outcomes [OF t]
  have urls: "map o_url rs0 = video_urls"
    and known: "\<forall>r \<in> set rs0. o_status r \<in> known_statuses" by simp_all
  have len: "length rs0 = length video_urls"
    using urls by (metis length_map)
  have d: "details res = rs0"
    and c1: "success res = length (filter (\<lambda>r. o_status r = ''success'') rs0)"
    and c2: "failed res =
           length (filter (\<lambda>r. o_status r = ''failed'' \<or> o_status r = ''error'') rs0)"
    and c3: "skipped res = length (filter (\<lambda>r. o_status r = ''skipped'') rs0)"
    and c4: "no_subtitles res = length (filter (\<lambda>r. o_status r = ''no_subtitles'') rs0)"
    and c5: "total_subtitles res = sum_list (map o_subtitle_count
           (filter (\<lambda>r. o_status r = ''success'' \<or> o_status r = ''skipped'') rs0))"
    by (simp_all add: res_def foldl_tally initial_results_def)
  have total: "success res + failed res + skipped res + no_subtitles res = length video_urls"
    unfolding c1 c2 c3 c4 len [symmetric] by (rule known_status_counts [OF known])
  have perm: "success (foldl tally initial_results rs) = success res
             \<and> failed (foldl tally initial_results rs) = failed res
             \<and> skipped (foldl tally initial_results rs) = skipped res
             \<and> no_subtitles (foldl tally initial_results rs) = no_subtitles res
             \<and> total_subtitles (foldl tally initial_results rs) = total_subtitles res"
    if "mset rs = mset (details res)" for rs
  proof -
    from that d have m: "mset rs = mset rs0" by simp
    show ?thesis
      by (simp add: foldl_tally initial_results_def c1 c2 c3 c4 c5
            length_filter_perm [OF m] sum_list_filter_perm [OF m])
  qed
  have dl: "length (details res) = length video_urls" by (simp add: d len)
  have du: "mset (map o_url (details res)) = mset video_urls" by (simp add: d urls)
  have e1: "success res = length (filter (\<lambda>r. o_status r = ''success'') (details res))"
    by (simp only: d c1)
  have e2: "failed res =
      length (filter (\<lambda>r. o_status r = ''failed'' \<or> o_status r = ''error'') (details res))"
    by (simp only: d c2)
  have e3: "skipped res = length (filter (\<lambda>r. o_status r = ''skipped'') (details res))"
    by (simp only: d c3)
  have e4: "no_subtitles res = length (filter (\<lambda>r. o_status r = ''no_subtitles'') (details res))"
    by (simp only: d c4)
  have pa: "\<forall>rs. mset rs = mset (details res) \<longrightarrow>
             success (foldl tally initial_results rs) = success res
             \<and> failed (foldl tally initial_results rs) = failed res
             \<and> skipped (foldl tally initial_results rs) = skipped res
             \<and> no_subtitles (foldl tally initial_results rs) = no_subtitles res
             \<and> total_subtitles (foldl tally initial_results rs) = total_subtitles res"
    by (intro allI impI) (rule perm)
  show ?thesis
    unfolding pv prod.case by (rule conjI total dl du e1 e2 e3 e4 pa)+
qed

lemma offline_batch:
  "process_video_list offline_world [] [''https://youtu.be/dQw4w9WgXcQ'', ''not a url''] =
     (\<lparr>success = 0, failed = 2, skipped = 0, no_subtitles = 0, total_subtitles = 0,
       details =
         [\<lparr>o_video_id = ''dQw4w9WgXcQ'', o_url = ''https://youtu.be/dQw4w9WgXcQ'',
           o_status = ''failed'', o_error = None, o_subtitle_count = 0\<rparr>,
          \<lparr>o_video_id = ''unknown'', o_url = ''not a url'', o_status = ''error'',
           o_error = Some ''Could not extract video ID from URL: not a url'',
           o_subtitle_count = 0\<rparr>]\<rparr>, [])"
  by code_simp

theorem process_video_list_total_witness:
  "failed (fst (process_video_list offline_world []
       [''https://youtu.be/dQw4w9WgXcQ'', ''not a url''])) = 2
   \<and> success (fst (process_video_list offline_world []
         [''https://youtu.be/dQw4w9WgXcQ'', ''not a url'']))
     + failed (fst (process_video_list offline_world []
         [''https://youtu.be/dQw4w9WgXcQ'', ''not a url'']))
     + skipped (fst (process_video_list offline_world []
         [''https://youtu.be/dQw4w9WgXcQ'', ''not a url'']))
     + no_subtitles (fst (process_video_list offline_world []
         [''https://youtu.be/dQw4w9WgXcQ'', ''not a url'']))
     = length [''https://youtu.be/dQw4w9WgXcQ'', ''not a url'']
   \<and> failed (foldl tally initial_results
        (rev (details (fst (process_video_list offline_world []
           [''https://youtu.be/dQw4w9WgXcQ'', ''not a url''])))))
       = 2"
proof -
  from process_video_list_total
    [where w = offline_world and st = "[]"
       and video_urls = "[''https://youtu.be/dQw4w9WgXcQ'', ''not a url'']"]
  have "\<forall>rs. mset rs =
          mset [\<lparr>o_video_id = ''dQw4w9WgXcQ'', o_url = ''https://youtu.be/dQw4w9WgXcQ'',
                  o_status = ''failed'', o_error = None, o_subtitle_count = 0\<rparr>,
                \<lparr>o_video_id = ''unknown'', o_url = ''not a url'', o_status = ''error'',
                  o_error = Some ''Could not extract video ID from URL: not a url'',
                  o_subtitle_count = 0\<rparr>]
        \<longrightarrow> failed (foldl tally initial_results rs) = 2"
    by (simp add: offline_batch)
  then have "failed (foldl tally initial_results
          (rev [\<lparr>o_video_id = ''dQw4w9WgXcQ'', o_url = ''https://youtu.be/dQw4w9WgXcQ'',
                  o_status = ''failed'', o_error = None, o_subtitle_count = 0\<rparr>,
                \<lparr>o_video_id = ''unknown'', o_url = ''not a url'', o_status = ''error'',
                  o_error = Some ''Could not extract video ID from URL: not a url'',
                  o_subtitle_count = 0\<rparr>])) = 2"
    by (simp del: rev.simps foldl.simps)
  then show ?thesis by (simp add: offline_batch)
qed

end
